theory Spec2Isabelle
  imports Main
begin

section \<open>Data model (main.go, lines 17-35)\<close>

text \<open>
  The struct \<^verbatim>\<open>Game\<close>: one Go \<^verbatim>\<open>int\<close> and nine strings. No arithmetic is ever
  done on \<^verbatim>\<open>ID\<close>, so it is an \<open>int\<close>; strings are byte lists.
\<close>

record Game =
  ID :: int
  Title :: string
  Thumbnail :: string
  ShortDescription :: string
  GameURL :: string
  Genre :: string
  Platform :: string
  Publisher :: string
  Developer :: string
  ReleaseDate :: string

text \<open>The zero value \<^verbatim>\<open>Game{}\<close>.\<close>

definition Game_zero :: Game where
  "Game_zero = \<lparr>ID = 0, Title = [], Thumbnail = [], ShortDescription = [], GameURL = [],
     Genre = [], Platform = [], Publisher = [], Developer = [], ReleaseDate = []\<rparr>"

text \<open>
  A Go slice is either \<^verbatim>\<open>nil\<close> or a sequence of elements; \<^verbatim>\<open>len\<close> of both the nil
  slice and the empty slice is 0.
\<close>

datatype 'a slice = NilSlice | Slice "'a list"

fun elems :: "'a slice \<Rightarrow> 'a list" where
  "elems NilSlice = []"
| "elems (Slice xs) = xs"

definition len :: "'a slice \<Rightarrow> int" where
  "len s = int (length (elems s))"

text \<open>Run-time panics of the Go code that the model keeps as values.\<close>

datatype panic = IndexOutOfRange | InvalidArgumentToIntn

text \<open>
  The index expression \<^verbatim>\<open>s[i]\<close>: Go panics when \<^verbatim>\<open>i\<close> is not in \<^verbatim>\<open>[0, len(s))\<close>.
\<close>

definition index :: "'a slice \<Rightarrow> int \<Rightarrow> panic + 'a" where
  "index s i = (if 0 \<le> i \<and> i < len s then Inr (elems s ! nat i) else Inl IndexOutOfRange)"

text \<open>
  \<^verbatim>\<open>rand.Intn(n)\<close> of the standard library: it panics when \<^verbatim>\<open>n <= 0\<close> and otherwise
  returns a number of the half-open interval \<^verbatim>\<open>[0, n)\<close>. The generator is not part of
  the repository: \<open>raw\<close> is the number the process-wide source produces for this call,
  arbitrary, and the result is its residue. Every number of the interval is the
  result for some \<open>raw\<close> (lemma \<open>Intn_any\<close> below), so no behaviour of the library is
  excluded.
\<close>

definition Intn :: "nat \<Rightarrow> int \<Rightarrow> panic + int" where
  "Intn raw n = (if n \<le> 0 then Inl InvalidArgumentToIntn else Inr (int raw mod n))"

text \<open>
  The struct \<^verbatim>\<open>GameStore\<close>. The field \<^verbatim>\<open>mu\<close> (the reader/writer lock) has no
  sequential content: every method holds it from entry to return, so each method is one
  atomic function of the store.
\<close>

record GameStore =
  games :: "Game slice"

text \<open>\<^verbatim>\<open>var store = &GameStore{}\<close>: the field starts as the nil slice.\<close>

definition store_init :: GameStore where
  "store_init = \<lparr>games = NilSlice\<rparr>"

section \<open>The catalog store (main.go, lines 37-56)\<close>

definition SetGames :: "GameStore \<Rightarrow> Game slice \<Rightarrow> GameStore" where
  "SetGames s gs = s\<lparr>games := gs\<rparr>"

definition GetRandom :: "GameStore \<Rightarrow> nat \<Rightarrow> panic + (Game \<times> bool)" where
  "GetRandom s raw =
     (if len (games s) = 0 then Inr (Game_zero, False)
      else case Intn raw (len (games s)) of
             Inl p \<Rightarrow> Inl p
           | Inr i \<Rightarrow> (case index (games s) i of
                        Inl p \<Rightarrow> Inl p
                      | Inr g \<Rightarrow> Inr (g, True)))"

definition Count :: "GameStore \<Rightarrow> int" where
  "Count s = len (games s)"


section \<open>JSON values and serialization\<close>

text \<open>
  The values that the handlers hand to the JSON encoder: integers and strings.
  \<^verbatim>\<open>gin.H\<close> is \<^verbatim>\<open>map[string]any\<close>.
\<close>

datatype jvalue = JInt int | JString string

type_synonym H = "string \<rightharpoonup> jvalue"

text \<open>Decimal notation of a Go \<^verbatim>\<open>int\<close>, as the encoder prints the field \<^verbatim>\<open>id\<close>.\<close>

fun digits :: "nat \<Rightarrow> string" where
  "digits n = (if n < 10 then [''0123456789'' ! n]
               else digits (n div 10) @ [''0123456789'' ! (n mod 10)])"

declare digits.simps [simp del]

definition itoa :: "int \<Rightarrow> string" where
  "itoa i = (if i < 0 then CHR ''-'' # digits (nat (- i)) else digits (nat i))"

text \<open>
  The fields of \<^verbatim>\<open>Game\<close> in declaration order, each under the key of its
  \<^verbatim>\<open>json:"..."\<close> tag (lines 18-27).
\<close>

definition Game_fields :: "Game \<Rightarrow> (string \<times> jvalue) list" where
  "Game_fields g =
     [(''id'', JInt (ID g)),
      (''title'', JString (Title g)),
      (''thumbnail'', JString (Thumbnail g)),
      (''short_description'', JString (ShortDescription g)),
      (''game_url'', JString (GameURL g)),
      (''genre'', JString (Genre g)),
      (''platform'', JString (Platform g)),
      (''publisher'', JString (Publisher g)),
      (''developer'', JString (Developer g)),
      (''release_date'', JString (ReleaseDate g))]"

text \<open>
  \<^verbatim>\<open>json.Marshal\<close> of a struct writes \<^verbatim>\<open>{"key":value,...}\<close> in declaration order,
  without white space. How the standard library quotes and escapes a string value is
  not part of the repository: it is the parameter \<open>enc\<close>. The keys are the literal
  tags of the source, plain identifiers that need no escaping.
\<close>

fun render_value :: "(string \<Rightarrow> string) \<Rightarrow> jvalue \<Rightarrow> string" where
  "render_value enc (JInt i) = itoa i"
| "render_value enc (JString s) = enc s"

definition render_member :: "(string \<Rightarrow> string) \<Rightarrow> string \<times> jvalue \<Rightarrow> string" where
  \<open>render_member enc kv = ''"'' @ fst kv @ ''":'' @ render_value enc (snd kv)\<close>

fun join_comma :: "string list \<Rightarrow> string" where
  "join_comma [] = []"
| "join_comma [x] = x"
| "join_comma (x # y # ys) = x @ '','' @ join_comma (y # ys)"

definition render_object :: "(string \<Rightarrow> string) \<Rightarrow> (string \<times> jvalue) list \<Rightarrow> string" where
  "render_object enc kvs = ''{'' @ join_comma (map (render_member enc) kvs) @ ''}''"

definition json_Marshal :: "(string \<Rightarrow> string) \<Rightarrow> Game \<Rightarrow> string" where
  "json_Marshal enc g = render_object enc (Game_fields g)"

section \<open>The process state\<close>

text \<open>
  What the handlers and the refresh loop share: the global \<^verbatim>\<open>store\<close>, the
  process-wide random source (the sequence of numbers it will produce and how many have
  been consumed) and the log. The three \<^verbatim>\<open>log.Printf\<close> calls of lines 72, 80 and 88
  are the three kinds of log entry.
\<close>

type_synonym error = string

datatype log_entry = LogLoaded int | LogWarning error | LogRefreshFailed error

record world =
  store :: GameStore
  rand_src :: "nat \<Rightarrow> nat"
  rand_pos :: nat
  logs :: "log_entry list"

text \<open>
  \<^verbatim>\<open>store.GetRandom()\<close> on the global store. \<^verbatim>\<open>rand.Intn\<close> is called, and a number of
  the source consumed, only on the path that passes the emptiness check.
\<close>

definition store_GetRandom :: "world \<Rightarrow> panic + ((Game \<times> bool) \<times> world)" where
  "store_GetRandom w =
     (case GetRandom (store w) (rand_src w (rand_pos w)) of
        Inl p \<Rightarrow> Inl p
      | Inr r \<Rightarrow> Inr (r, if len (games (store w)) = 0 then w
                          else w\<lparr>rand_pos := Suc (rand_pos w)\<rparr>))"

section \<open>Fetching and refreshing (main.go, lines 58-91)\<close>

text \<open>
  \<^verbatim>\<open>fetchGames\<close> makes two calls that can fail: \<^verbatim>\<open>client.Get\<close> (line 60) and
  \<^verbatim>\<open>Decode\<close> (line 67). What the network and the decoder do is the input of the
  model: the first call fails, or the second fails, or the body decodes to a slice
  (\<^verbatim>\<open>null\<close> leaves the variable \<^verbatim>\<open>games\<close> nil, \<^verbatim>\<open>[]\<close> makes it empty).
\<close>

datatype fetch_io = GetFailed error | DecodeFailed error | Decoded "Game slice"

text \<open>The error of a failing fetch, if it fails.\<close>

fun fetch_error :: "fetch_io \<Rightarrow> error option" where
  "fetch_error (GetFailed e) = Some e"
| "fetch_error (DecodeFailed e) = Some e"
| "fetch_error (Decoded gs) = None"

definition fetchGames :: "fetch_io \<Rightarrow> world \<Rightarrow> error option \<times> world" where
  "fetchGames io w =
     (case io of
        GetFailed e \<Rightarrow> (Some e, w)
      | DecodeFailed e \<Rightarrow> (Some e, w)
      | Decoded gs \<Rightarrow>
          (None, w\<lparr>store := SetGames (store w) gs, logs := logs w @ [LogLoaded (len gs)]\<rparr>))"

text \<open>Lines 79-81 of \<^verbatim>\<open>main\<close>: the fetch before serving begins.\<close>

definition main_startup :: "fetch_io \<Rightarrow> world \<Rightarrow> world" where
  "main_startup io w =
     (case fetchGames io w of
        (Some e, w') \<Rightarrow> w'\<lparr>logs := logs w' @ [LogWarning e]\<rparr>
      | (None, w') \<Rightarrow> w')"

text \<open>Lines 87-89: the body of the hourly loop.\<close>

definition refresh_iteration :: "fetch_io \<Rightarrow> world \<Rightarrow> world" where
  "refresh_iteration io w =
     (case fetchGames io w of
        (Some e, w') \<Rightarrow> w'\<lparr>logs := logs w' @ [LogRefreshFailed e]\<rparr>
      | (None, w') \<Rightarrow> w')"

text \<open>
  Lines 84-91: \<^verbatim>\<open>for range ticker.C\<close>, one iteration per firing of the hourly ticker;
  the list holds what the network does at each firing.
\<close>

fun refresh_loop :: "fetch_io list \<Rightarrow> world \<Rightarrow> world" where
  "refresh_loop [] w = w"
| "refresh_loop (io # ios) w = refresh_loop ios (refresh_iteration io w)"

section \<open>Responses (main.go, lines 115-161)\<close>

text \<open>
  The response writer of one request: the header map, the reply of \<^verbatim>\<open>c.JSON\<close> (status
  code and object) if one was made, the chunks written and not yet flushed, and the
  chunks flushed to the client, in order. \<open>flusher\<close> says whether the transport
  beneath the writer supports incremental flush.
\<close>

record ResponseWriter =
  headers :: "string \<rightharpoonup> string"
  reply :: "(int \<times> H) option"
  buffered :: "string list"
  flushed :: "string list"
  flusher :: bool

definition Header_Set :: "string \<Rightarrow> string \<Rightarrow> ResponseWriter \<Rightarrow> ResponseWriter" where
  "Header_Set k v rw = rw\<lparr>headers := (headers rw)(k \<mapsto> v)\<rparr>"

definition c_JSON :: "int \<Rightarrow> H \<Rightarrow> ResponseWriter \<Rightarrow> ResponseWriter" where
  "c_JSON code obj rw = rw\<lparr>reply := Some (code, obj)\<rparr>"

definition Fprintf :: "ResponseWriter \<Rightarrow> string \<Rightarrow> ResponseWriter" where
  "Fprintf rw s = rw\<lparr>buffered := buffered rw @ [s]\<rparr>"

definition Flush :: "ResponseWriter \<Rightarrow> ResponseWriter" where
  "Flush rw = rw\<lparr>flushed := flushed rw @ buffered rw, buffered := []\<rparr>"

definition statsHandler :: "world \<Rightarrow> ResponseWriter \<Rightarrow> ResponseWriter" where
  "statsHandler w rw =
     c_JSON 200 [''total_games'' \<mapsto> JInt (Count (store w)), ''status'' \<mapsto> JString ''online''] rw"

section \<open>The stream handler (main.go, lines 122-161)\<close>

text \<open>The literal of line 138.\<close>

definition error_event :: string where
  \<open>error_event = ''event: error'' @ [CHR 0x0A]
     @ ''data: {"message":"No games available"}'' @ [CHR 0x0A, CHR 0x0A]\<close>

text \<open>The format \<^verbatim>\<open>"data: %s\n\n"\<close> of line 143 applied to the marshalled bytes.\<close>

definition data_message :: "string \<Rightarrow> string" where
  "data_message d = ''data: '' @ d @ [CHR 0x0A, CHR 0x0A]"

text \<open>The closure \<^verbatim>\<open>sendGame\<close> (lines 135-145).\<close>

definition sendGame ::
  "(string \<Rightarrow> string) \<Rightarrow> world \<times> ResponseWriter \<Rightarrow> panic + (world \<times> ResponseWriter)" where
  "sendGame enc wr =
     (case store_GetRandom (fst wr) of
        Inl p \<Rightarrow> Inl p
      | Inr ((game, ok), w') \<Rightarrow>
          if \<not> ok then Inr (w', Flush (Fprintf (snd wr) error_event))
          else Inr (w', Flush (Fprintf (snd wr) (data_message (json_Marshal enc game)))))"

text \<open>
  Where the handler's control is: \<open>Connecting\<close> before the capability check of lines
  129-133 has passed, \<open>Streaming\<close> from line 135 until the handler returns, \<open>Closed\<close>
  once it has returned. The ticker of line 150 has a period in nanoseconds
  (\<^verbatim>\<open>time.Duration\<close>).
\<close>

datatype phase = Connecting | Streaming | Closed

datatype ticker = NoTicker | Running int | Stopped int

definition Second :: int where
  "Second = 1000000000"

fun ticker_Stop :: "ticker \<Rightarrow> ticker" where
  "ticker_Stop (Running d) = Stopped d"
| "ticker_Stop t = t"

record session =
  phase :: phase
  writer :: ResponseWriter
  ticker :: ticker

text \<open>Lines 123-127.\<close>

definition stream_headers :: "ResponseWriter \<Rightarrow> ResponseWriter" where
  "stream_headers rw =
     Header_Set ''X-Accel-Buffering'' ''no''
       (Header_Set ''Access-Control-Allow-Origin'' ''*''
         (Header_Set ''Connection'' ''keep-alive''
           (Header_Set ''Cache-Control'' ''no-cache''
             (Header_Set ''Content-Type'' ''text/event-stream'' rw))))"

text \<open>
  The type assertion \<^verbatim>\<open>c.Writer.(http.Flusher)\<close> of line 129. The field \<^verbatim>\<open>c.Writer\<close> has
  the interface type \<^verbatim>\<open>gin.ResponseWriter\<close>, which embeds \<^verbatim>\<open>http.Flusher\<close>: every value the
  field can hold has the method \<^verbatim>\<open>Flush\<close>, so the assertion yields \<^verbatim>\<open>ok = true\<close> for every
  writer, whatever the transport beneath it can do.
\<close>

definition assert_Flusher :: "ResponseWriter \<Rightarrow> bool" where
  "assert_Flusher rw = True"

text \<open>
  Lines 123-151, up to the loop: the headers, the capability check, the first
  \<^verbatim>\<open>sendGame()\<close> and then the creation of the 3-second ticker.
\<close>

definition stream_enter ::
  "(string \<Rightarrow> string) \<Rightarrow> world \<Rightarrow> ResponseWriter \<Rightarrow> panic + (world \<times> session)" where
  "stream_enter enc w rw0 =
     (let rw = stream_headers rw0; ok = assert_Flusher rw in
      if \<not> ok
      then Inr (w, \<lparr>phase = Closed,
                    writer = c_JSON 500 [''error'' \<mapsto> JString ''SSE not supported''] rw,
                    ticker = NoTicker\<rparr>)
      else case sendGame enc (w, rw) of
             Inl p \<Rightarrow> Inl p
           | Inr (w', rw') \<Rightarrow>
               Inr (w', \<lparr>phase = Streaming, writer = rw', ticker = Running (3 * Second)\<rparr>))"

text \<open>
  One pass through the \<^verbatim>\<open>select\<close> of lines 154-159. Which channel delivers is the
  input: the request context is done, or the ticker has fired.
\<close>

datatype select_case = CtxDone | TickC

fun stream_select ::
  "(string \<Rightarrow> string) \<Rightarrow> select_case \<Rightarrow> world \<times> session \<Rightarrow> panic + (world \<times> session)" where
  "stream_select enc CtxDone (w, s) =
     Inr (w, s\<lparr>phase := Closed, ticker := ticker_Stop (ticker s)\<rparr>)"
| "stream_select enc TickC (w, s) =
     (case sendGame enc (w, writer s) of
        Inl p \<Rightarrow> Inl p
      | Inr (w', rw') \<Rightarrow> Inr (w', s\<lparr>writer := rw'\<rparr>))"

text \<open>
  The \<^verbatim>\<open>for\<close> loop of lines 153-160 over a finite prefix of what the channels
  deliver. A handler that has returned does nothing more; a prefix without \<open>CtxDone\<close>
  leaves the session in the loop.
\<close>

fun stream_loop ::
  "(string \<Rightarrow> string) \<Rightarrow> select_case list \<Rightarrow> world \<times> session \<Rightarrow> panic + (world \<times> session)" where
  "stream_loop enc [] ws = Inr ws"
| "stream_loop enc (c # cs) ws =
     (if phase (snd ws) \<noteq> Streaming then Inr ws
      else case stream_select enc c ws of
             Inl p \<Rightarrow> Inl p
           | Inr ws' \<Rightarrow> stream_loop enc cs ws')"

definition streamHandler ::
  "(string \<Rightarrow> string) \<Rightarrow> select_case list \<Rightarrow> world \<Rightarrow> ResponseWriter
     \<Rightarrow> panic + (world \<times> session)" where
  "streamHandler enc cs w rw =
     (case stream_enter enc w rw of
        Inl p \<Rightarrow> Inl p
      | Inr ws \<Rightarrow> stream_loop enc cs ws)"

section \<open>One session beside the refresh loop\<close>

text \<open>
  The refresh goroutine of lines 84-91 runs beside every stream session. Each store
  method holds the lock for its whole body, so a run of the two is a sequence of whole
  steps: a pass of the session's \<^verbatim>\<open>select\<close>, or an iteration of the refresh loop.
\<close>

datatype sys_event = Select select_case | RefreshTick fetch_io

fun sys_step ::
  "(string \<Rightarrow> string) \<Rightarrow> sys_event \<Rightarrow> world \<times> session \<Rightarrow> panic + (world \<times> session)" where
  "sys_step enc (Select c) ws =
     (if phase (snd ws) \<noteq> Streaming then Inr ws else stream_select enc c ws)"
| "sys_step enc (RefreshTick io) ws = Inr (refresh_iteration io (fst ws), snd ws)"

fun sys_run ::
  "(string \<Rightarrow> string) \<Rightarrow> sys_event list \<Rightarrow> world \<times> session \<Rightarrow> panic + (world \<times> session)" where
  "sys_run enc [] ws = Inr ws"
| "sys_run enc (ev # evs) ws =
     (case sys_step enc ev ws of
        Inl p \<Rightarrow> Inl p
      | Inr ws' \<Rightarrow> sys_run enc evs ws')"

text \<open>The ticks of the session's ticker among the events of a run.\<close>

definition ticks :: "sys_event list \<Rightarrow> nat" where
  "ticks evs = length (filter (\<lambda>ev. ev = Select TickC) evs)"


text \<open>
  A chunk is a message of the stream drawn from one of the given catalogs: the error
  event of line 138 when one of them is empty, or the framed serialization (line 143)
  of an item of one of them.
\<close>

definition message_from :: "(string \<Rightarrow> string) \<Rightarrow> Game slice list \<Rightarrow> string \<Rightarrow> bool" where
  "message_from enc cats m \<longleftrightarrow>
     (m = error_event \<and> (\<exists>c \<in> set cats. len c = 0))
     \<or> (\<exists>c \<in> set cats. \<exists>g \<in> set (elems c). m = data_message (json_Marshal enc g))"

section \<open>The ticker's channel (main.go, lines 150-159)\<close>







section \<open>Concurrent calls of the store methods (main.go, lines 37-56)\<close>

text \<open>
  Threads call \<^verbatim>\<open>SetGames\<close>, \<^verbatim>\<open>GetRandom\<close> and \<^verbatim>\<open>Count\<close> on the one store at the same
  time. Each thread runs its method statement by statement, and the statements of
  different threads interleave in any order.
\<close>

datatype call = CallSetGames "Game slice" | CallGetRandom nat | CallCount

datatype ret = RetUnit | RetGame Game bool | RetCount int

text \<open>
  Where a thread is in its call: at the start; in \<^verbatim>\<open>SetGames\<close> after \<^verbatim>\<open>Lock\<close> (line
  38) and after the assignment (line 40); in \<^verbatim>\<open>GetRandom\<close> after \<^verbatim>\<open>RLock\<close> (line 44),
  after the test of line 46 found a nonempty slice, after \<^verbatim>\<open>rand.Intn\<close> returned an
  index, with its return value computed and the deferred \<^verbatim>\<open>RUnlock\<close> still to run, or
  panicking with the deferred \<^verbatim>\<open>RUnlock\<close> still to run; in \<^verbatim>\<open>Count\<close> after \<^verbatim>\<open>RLock\<close>
  and with its return value computed; returned; or panicked.
\<close>

datatype thread =
    Start call
  | SG_locked "Game slice"
  | SG_assigned "Game slice"
  | GR_rlocked nat
  | GR_nonempty nat
  | GR_drawn nat int
  | GR_result nat Game bool
  | GR_panic panic
  | CT_rlocked
  | CT_result int
  | Finished call ret
  | Panicked panic

text \<open>
  What the threads share: the store, the state of the lock \<^verbatim>\<open>mu\<close> (held for writing;
  number of read locks held) and, as a history variable that no step reads, every
  value the store has had.
\<close>

record shared =
  mem :: GameStore
  wlocked :: bool
  rcount :: nat
  installed :: "GameStore list"

text \<open>
  One statement of one thread. \<^verbatim>\<open>Lock\<close> and \<^verbatim>\<open>RLock\<close> block (no step, \<open>None\<close>) as
  \<^verbatim>\<open>sync.RWMutex\<close> documents: \<^verbatim>\<open>Lock\<close> while the lock is held for reading or writing,
  \<^verbatim>\<open>RLock\<close> while it is held for writing. \<^verbatim>\<open>GetRandom\<close> loads \<^verbatim>\<open>s.games\<close> three times:
  for the test of line 46, for the argument of \<^verbatim>\<open>rand.Intn\<close> and for the index
  expression of line 49; each load is a step of its own and sees the store of that
  moment. (The library also makes \<^verbatim>\<open>RLock\<close> wait while a \<^verbatim>\<open>Lock\<close> is pending; that
  only removes interleavings from those considered here.)
\<close>

fun thread_step :: "thread \<Rightarrow> shared \<Rightarrow> (thread \<times> shared) option" where
  "thread_step (Start (CallSetGames gs)) sh =
     (if wlocked sh \<or> rcount sh \<noteq> 0 then None
      else Some (SG_locked gs, sh\<lparr>wlocked := True\<rparr>))"
| "thread_step (SG_locked gs) sh =
     Some (SG_assigned gs,
           sh\<lparr>mem := SetGames (mem sh) gs, installed := installed sh @ [SetGames (mem sh) gs]\<rparr>)"
| "thread_step (SG_assigned gs) sh =
     Some (Finished (CallSetGames gs) RetUnit, sh\<lparr>wlocked := False\<rparr>)"
| "thread_step (Start (CallGetRandom raw)) sh =
     (if wlocked sh then None
      else Some (GR_rlocked raw, sh\<lparr>rcount := Suc (rcount sh)\<rparr>))"
| "thread_step (GR_rlocked raw) sh =
     Some (if len (games (mem sh)) = 0 then GR_result raw Game_zero False else GR_nonempty raw, sh)"
| "thread_step (GR_nonempty raw) sh =
     Some (case Intn raw (len (games (mem sh))) of
             Inl p \<Rightarrow> GR_panic p
           | Inr i \<Rightarrow> GR_drawn raw i, sh)"
| "thread_step (GR_drawn raw i) sh =
     Some (case index (games (mem sh)) i of
             Inl p \<Rightarrow> GR_panic p
           | Inr g \<Rightarrow> GR_result raw g True, sh)"
| "thread_step (GR_result raw g ok) sh =
     Some (Finished (CallGetRandom raw) (RetGame g ok), sh\<lparr>rcount := rcount sh - 1\<rparr>)"
| "thread_step (GR_panic p) sh =
     Some (Panicked p, sh\<lparr>rcount := rcount sh - 1\<rparr>)"
| "thread_step (Start CallCount) sh =
     (if wlocked sh then None
      else Some (CT_rlocked, sh\<lparr>rcount := Suc (rcount sh)\<rparr>))"
| "thread_step CT_rlocked sh = Some (CT_result (len (games (mem sh))), sh)"
| "thread_step (CT_result n) sh =
     Some (Finished CallCount (RetCount n), sh\<lparr>rcount := rcount sh - 1\<rparr>)"
| "thread_step (Finished c r) sh = None"
| "thread_step (Panicked p) sh = None"

text \<open>
  A configuration is the threads and what they share. A schedule names the thread
  that moves next; naming a thread that is blocked or has returned changes nothing.
\<close>

record config =
  threads :: "thread list"
  shared :: shared

definition schedule_step :: "nat \<Rightarrow> config \<Rightarrow> config" where
  "schedule_step t cfg =
     (if t < length (threads cfg)
      then case thread_step (threads cfg ! t) (shared cfg) of
             None \<Rightarrow> cfg
           | Some (th, sh) \<Rightarrow> \<lparr>threads = (threads cfg)[t := th], shared = sh\<rparr>
      else cfg)"

fun run_schedule :: "nat list \<Rightarrow> config \<Rightarrow> config" where
  "run_schedule [] cfg = cfg"
| "run_schedule (t # ts) cfg = run_schedule ts (schedule_step t cfg)"

definition init_config :: "GameStore \<Rightarrow> call list \<Rightarrow> config" where
  "init_config s calls =
     \<lparr>threads = map Start calls,
      shared = \<lparr>mem = s, wlocked = False, rcount = 0, installed = [s]\<rparr>\<rparr>"

text \<open>
  What holds in every configuration that a schedule reaches: the lock state agrees
  with where the threads are, a writer excludes readers, and what a thread has computed
  from the store is still true of the store while it holds the read lock.
\<close>

fun holds_read :: "thread \<Rightarrow> bool" where
  "holds_read (GR_rlocked raw) = True"
| "holds_read (GR_nonempty raw) = True"
| "holds_read (GR_drawn raw i) = True"
| "holds_read (GR_result raw g ok) = True"
| "holds_read (GR_panic p) = True"
| "holds_read CT_rlocked = True"
| "holds_read (CT_result n) = True"
| "holds_read th = False"

fun holds_write :: "thread \<Rightarrow> bool" where
  "holds_write (SG_locked gs) = True"
| "holds_write (SG_assigned gs) = True"
| "holds_write th = False"

text \<open>
  A returned call agrees with the stores of a history: \<^verbatim>\<open>GetRandom\<close> returned what the
  method of the sequential model returns on one of them, for the number its call of
  \<^verbatim>\<open>rand.Intn\<close> drew; \<^verbatim>\<open>Count\<close> returned the length of one of them.
\<close>

fun result_ok :: "GameStore list \<Rightarrow> call \<Rightarrow> ret \<Rightarrow> bool" where
  "result_ok hist (CallSetGames gs) r = (r = RetUnit)"
| "result_ok hist (CallGetRandom raw) (RetGame g ok) =
     (\<exists>c \<in> set hist. GetRandom c raw = Inr (g, ok))"
| "result_ok hist (CallGetRandom raw) r = False"
| "result_ok hist CallCount (RetCount n) = (\<exists>c \<in> set hist. n = Count c)"
| "result_ok hist CallCount r = False"

fun thread_ok :: "shared \<Rightarrow> thread \<Rightarrow> bool" where
  "thread_ok sh (GR_nonempty raw) = (len (games (mem sh)) \<noteq> 0)"
| "thread_ok sh (GR_drawn raw i) =
     (len (games (mem sh)) \<noteq> 0 \<and> Intn raw (len (games (mem sh))) = Inr i)"
| "thread_ok sh (GR_result raw g ok) = (GetRandom (mem sh) raw = Inr (g, ok))"
| "thread_ok sh (GR_panic p) = False"
| "thread_ok sh (Panicked p) = False"
| "thread_ok sh (CT_result n) = (n = Count (mem sh))"
| "thread_ok sh (Finished c r) = result_ok (installed sh) c r"
| "thread_ok sh th = True"

text \<open>
  The stores that the calls of a run can install: the initial one and, for each call
  of \<^verbatim>\<open>SetGames\<close>, the store that holds its argument.
\<close>

fun installs :: "GameStore \<Rightarrow> call \<Rightarrow> GameStore list" where
  "installs s (CallSetGames gs) = [SetGames s gs]"
| "installs s c = []"

definition catalogs :: "GameStore \<Rightarrow> call list \<Rightarrow> GameStore list" where
  "catalogs s calls = s # concat (map (installs s) calls)"

fun source_ok :: "GameStore list \<Rightarrow> thread \<Rightarrow> bool" where
  "source_ok cats (Start (CallSetGames gs)) = (\<lparr>games = gs\<rparr> \<in> set cats)"
| "source_ok cats (SG_locked gs) = (\<lparr>games = gs\<rparr> \<in> set cats)"
| "source_ok cats th = True"

definition Inv :: "GameStore list \<Rightarrow> config \<Rightarrow> bool" where
  "Inv cats cfg \<longleftrightarrow>
     set (installed (shared cfg)) \<subseteq> set cats
     \<and> (\<forall>th \<in> set (threads cfg). source_ok cats th)
     \<and> rcount (shared cfg) = length (filter holds_read (threads cfg))
     \<and> (if wlocked (shared cfg) then 1 else 0) = length (filter holds_write (threads cfg))
     \<and> (wlocked (shared cfg) \<longrightarrow> rcount (shared cfg) = 0)
     \<and> mem (shared cfg) \<in> set (installed (shared cfg))
     \<and> (\<forall>th \<in> set (threads cfg). thread_ok (shared cfg) th)"

text \<open>No thread is panicking or has panicked, and every returned call agrees with
  the stores installed so far.\<close>

definition threads_safe :: "config \<Rightarrow> bool" where
  "threads_safe cfg \<longleftrightarrow>
     (\<forall>th \<in> set (threads cfg).
        (case th of
           Panicked p \<Rightarrow> False
         | GR_panic p \<Rightarrow> False
         | Finished c r \<Rightarrow> result_ok (installed (shared cfg)) c r
         | _ \<Rightarrow> True))"

section \<open>Sample data\<close>

text \<open>Concrete inputs on which the theorems below are instantiated.\<close>

definition game_a :: Game where
  "game_a = \<lparr>ID = 540, Title = ''Overwatch 2'', Thumbnail = ''t540.jpg'',
     ShortDescription = ''A hero-focused shooter'', GameURL = ''https://example.org/540'',
     Genre = ''Shooter'', Platform = ''PC (Windows)'', Publisher = ''Activision Blizzard'',
     Developer = ''Blizzard Entertainment'', ReleaseDate = ''2022-10-04''\<rparr>"

definition game_b :: Game where
  "game_b = \<lparr>ID = 521, Title = ''Diablo Immortal'', Thumbnail = ''t521.jpg'',
     ShortDescription = ''An action RPG'', GameURL = ''https://example.org/521'',
     Genre = ''MMOARPG'', Platform = ''PC (Windows)'', Publisher = ''Blizzard Entertainment'',
     Developer = ''Blizzard Entertainment'', ReleaseDate = ''2022-06-02''\<rparr>"

definition world_init :: world where
  "world_init = \<lparr>store = store_init, rand_src = (\<lambda>k. 7 * k + 5), rand_pos = 0, logs = []\<rparr>"

definition rw_init :: ResponseWriter where
  "rw_init = \<lparr>headers = Map.empty, reply = None, buffered = [], flushed = [], flusher = True\<rparr>"

text \<open>
  What the encoder writes for a string that has no character to escape: the string
  between double quotes. It stands for the parameter \<open>enc\<close> in the examples, whose
  strings are of that kind.
\<close>

definition quote_plain :: "string \<Rightarrow> string" where
  \<open>quote_plain s = ''"'' @ s @ ''"''\<close>


definition demo_store :: GameStore where
  "demo_store = \<lparr>games = Slice [game_a, game_b]\<rparr>"

definition seven_games :: "Game list" where
  "seven_games = [game_a\<lparr>ID := 1\<rparr>, game_a\<lparr>ID := 2\<rparr>, game_a\<lparr>ID := 3\<rparr>, game_a\<lparr>ID := 4\<rparr>,
     game_a\<lparr>ID := 5\<rparr>, game_a\<lparr>ID := 6\<rparr>, game_a\<lparr>ID := 7\<rparr>]"

definition three_games :: "Game list" where
  "three_games = [game_b\<lparr>ID := 11\<rparr>, game_b\<lparr>ID := 12\<rparr>, game_b\<lparr>ID := 13\<rparr>]"

text \<open>
  Five calls of \<^verbatim>\<open>GetRandom\<close> and one of \<^verbatim>\<open>SetGames\<close> with three items. In the
  schedule two readers hold the read lock when the writer first asks for the lock, and
  two readers ask for it while the writer holds it.
\<close>

definition demo_calls :: "call list" where
  "demo_calls = [CallGetRandom 0, CallGetRandom 1, CallGetRandom 2, CallGetRandom 3,
     CallGetRandom 4, CallSetGames (Slice three_games)]"

definition demo_schedule :: "nat list" where
  "demo_schedule = [0, 0, 1, 5, 0, 0, 0, 1, 1, 1, 1, 5, 2, 5, 3, 5,
     2, 2, 2, 2, 2, 3, 3, 4, 3, 4, 3, 4, 3, 4, 4]"

section \<open>Properties of the catalog store\<close>

lemma len_nonneg: "0 \<le> len s"
  by (simp add: len_def)

lemma Intn_any:
  assumes "0 \<le> r" and "r < n"
  shows "Intn (nat r) n = Inr r"
  using assms by (simp add: Intn_def)

lemma Intn_in_range:
  assumes "0 < n"
  shows "\<exists>i. Intn raw n = Inr i \<and> 0 \<le> i \<and> i < n"
  using assms by (simp add: Intn_def)

lemma index_in_range:
  assumes "0 \<le> i" and "i < len s"
  shows "\<exists>g. index s i = Inr g \<and> g \<in> set (elems s)"
  using assms by (simp add: index_def len_def)

lemma index_empty: "len s = 0 \<Longrightarrow> index s i = Inl IndexOutOfRange"
  by (simp add: index_def)

lemma GetRandom_found:
  assumes "1 \<le> len (games s)"
  shows "\<exists>g. GetRandom s raw = Inr (g, True) \<and> g \<in> set (elems (games s))"
proof -
  from assms have pos: "0 < len (games s)" by simp
  obtain i where i: "Intn raw (len (games s)) = Inr i" "0 \<le> i" "i < len (games s)"
    using Intn_in_range [OF pos] by blast
  obtain g where g: "index (games s) i = Inr g" "g \<in> set (elems (games s))"
    using index_in_range [OF i(2) i(3)] by blast
  from pos i(1) g(1) have "GetRandom s raw = Inr (g, True)"
    by (simp add: GetRandom_def)
  with g(2) show ?thesis by blast
qed

lemma GetRandom_empty:
  assumes "len (games s) = 0"
  shows "GetRandom s raw = Inr (Game_zero, False)"
  using assms by (simp add: GetRandom_def)

lemma GetRandom_True_nonempty:
  assumes "GetRandom s raw = Inr (g, True)"
  shows "1 \<le> len (games s) \<and> g \<in> set (elems (games s))"
proof -
  have ne: "len (games s) \<noteq> 0"
    using assms by (auto simp: GetRandom_def)
  with len_nonneg [of "games s"] have one: "1 \<le> len (games s)" by simp
  from GetRandom_found [OF one, of raw] assms show ?thesis
    using one by auto
qed

text \<open>
  Claim C1. Whenever the installed catalog has at least one item, \<^verbatim>\<open>GetRandom\<close>
  returns normally with \<open>found = True\<close>, whatever number the random source produces,
  and the returned item is an element of the installed slice; in particular its
  identifier belongs to the identifiers of the snapshot.
\<close>

theorem GetRandom_nonempty_found:
  assumes "1 \<le> len (games s)"
  shows "\<exists>g. GetRandom s raw = Inr (g, True)
           \<and> g \<in> set (elems (games s))
           \<and> ID g \<in> ID ` set (elems (games s))"
  using GetRandom_found [OF assms, of raw] by blast

theorem GetRandom_nonempty_found_witness:
  "1 \<le> len (games demo_store)
   \<and> (\<exists>g. GetRandom demo_store 5 = Inr (g, True)
          \<and> g \<in> set (elems (games demo_store))
          \<and> ID g \<in> ID ` set (elems (games demo_store)))"
proof -
  have h: "1 \<le> len (games demo_store)"
    by (simp add: demo_store_def len_def)
  show ?thesis
    using h GetRandom_nonempty_found [OF h, of 5] by blast
qed

text \<open>
  Claim C2. Whenever the installed catalog is empty (nil or of length 0),
  \<^verbatim>\<open>GetRandom\<close> returns the zero-value item and \<open>found = False\<close>, whatever the random
  source holds. It returns normally although every index expression on this slice
  would panic: the slice is not indexed.
\<close>

theorem GetRandom_empty_not_found:
  assumes "len (games s) = 0"
  shows "GetRandom s raw = Inr (Game_zero, False)
         \<and> (\<forall>i. index (games s) i = Inl IndexOutOfRange)"
  using GetRandom_empty [OF assms] index_empty [OF assms] by simp

theorem GetRandom_empty_not_found_witness:
  "len (games store_init) = 0
   \<and> GetRandom store_init 5 = Inr (Game_zero, False)
   \<and> (\<forall>i. index (games store_init) i = Inl IndexOutOfRange)"
proof -
  have h: "len (games store_init) = 0"
    by (simp add: store_init_def len_def)
  show ?thesis
    using h GetRandom_empty_not_found [OF h, of 5] by simp
qed

section \<open>Properties of fetching and refreshing\<close>

lemma fetchGames_failed:
  assumes "fetch_error io = Some e"
  shows "fetchGames io w = (Some e, w)"
  using assms by (cases io) (simp_all add: fetchGames_def)

lemma refresh_iteration_failed:
  assumes "fetch_error io = Some e"
  shows "refresh_iteration io w = w\<lparr>logs := logs w @ [LogRefreshFailed e]\<rparr>"
  by (simp add: refresh_iteration_def fetchGames_failed [OF assms])

lemma main_startup_failed:
  assumes "fetch_error io = Some e"
  shows "main_startup io w = w\<lparr>logs := logs w @ [LogWarning e]\<rparr>"
  by (simp add: main_startup_def fetchGames_failed [OF assms])

text \<open>
  Claim C3. When the fetch fails, at \<^verbatim>\<open>client.Get\<close> or at \<^verbatim>\<open>Decode\<close>,
  \<^verbatim>\<open>fetchGames\<close> returns the error and leaves the whole process state, the catalog
  included, as it was: \<^verbatim>\<open>SetGames\<close> is not reached. Both callers in \<^verbatim>\<open>main\<close> only
  add a line to the log and go on: the startup fetch returns to the rest of \<^verbatim>\<open>main\<close>
  with the catalog unchanged, and the refresh loop goes on to the following firings
  of its ticker with the catalog unchanged.
\<close>

theorem fetch_failure_keeps_catalog:
  assumes "fetch_error io = Some e"
  shows "fetchGames io w = (Some e, w)
         \<and> main_startup io w = w\<lparr>logs := logs w @ [LogWarning e]\<rparr>
         \<and> store (main_startup io w) = store w
         \<and> store (refresh_iteration io w) = store w
         \<and> refresh_loop (io # ios) w
             = refresh_loop ios (w\<lparr>logs := logs w @ [LogRefreshFailed e]\<rparr>)"
  by (simp add: fetchGames_failed [OF assms] main_startup_failed [OF assms]
        refresh_iteration_failed [OF assms])

theorem fetch_failure_keeps_catalog_witness:
  "fetch_error (DecodeFailed ''unexpected end of JSON input'') = Some ''unexpected end of JSON input''
   \<and> fetchGames (DecodeFailed ''unexpected end of JSON input'') (world_init\<lparr>store := demo_store\<rparr>)
       = (Some ''unexpected end of JSON input'', world_init\<lparr>store := demo_store\<rparr>)
   \<and> store (main_startup (DecodeFailed ''unexpected end of JSON input'')
       (world_init\<lparr>store := demo_store\<rparr>)) = demo_store
   \<and> store (refresh_loop [DecodeFailed ''unexpected end of JSON input'', Decoded (Slice [game_b])]
       (world_init\<lparr>store := demo_store\<rparr>)) = \<lparr>games = Slice [game_b]\<rparr>"
proof -
  have h: "fetch_error (DecodeFailed ''unexpected end of JSON input'')
             = Some ''unexpected end of JSON input''"
    by simp
  show ?thesis
    using fetch_failure_keeps_catalog [OF h, of "world_init\<lparr>store := demo_store\<rparr>"
        "[Decoded (Slice [game_b])]"]
    by (simp add: refresh_iteration_def fetchGames_def SetGames_def demo_store_def)
qed

section \<open>Properties of replacement and of the stats endpoint\<close>

text \<open>
  Claim C4. \<^verbatim>\<open>SetGames\<close> installs exactly the given slice, whatever the store held
  before; \<^verbatim>\<open>Count\<close> is then the length of that slice, and \<^verbatim>\<open>statsHandler\<close> replies
  with status 200 and the object of exactly two members, \<^verbatim>\<open>total_games\<close> with that
  count and \<^verbatim>\<open>status\<close> with \<^verbatim>\<open>online\<close>. The object is the map handed to \<^verbatim>\<open>c.JSON\<close>;
  in which order the encoder writes its members is not part of the statement.
\<close>

theorem SetGames_replaces_whole_catalog:
  "games (SetGames s gs) = gs
   \<and> Count (SetGames s gs) = int (length (elems gs))
   \<and> reply (statsHandler (w\<lparr>store := SetGames (store w) gs\<rparr>) rw)
       = Some (200, [''total_games'' \<mapsto> JInt (int (length (elems gs))),
                     ''status'' \<mapsto> JString ''online''])"
  by (simp add: SetGames_def Count_def len_def statsHandler_def c_JSON_def)

theorem SetGames_replaces_whole_catalog_witness:
  "games (SetGames demo_store (Slice seven_games)) = Slice seven_games
   \<and> Count (SetGames demo_store (Slice seven_games)) = 7
   \<and> reply (statsHandler (world_init\<lparr>store := SetGames demo_store (Slice seven_games)\<rparr>) rw_init)
       = Some (200, [''total_games'' \<mapsto> JInt 7, ''status'' \<mapsto> JString ''online''])"
  using SetGames_replaces_whole_catalog [of demo_store "Slice seven_games"
      "world_init\<lparr>store := demo_store\<rparr>" rw_init]
  by (simp add: seven_games_def)

text \<open>
  Claim C10. \<^verbatim>\<open>SetGames\<close> takes a slice of length 0, nil or empty, like any other:
  afterwards \<^verbatim>\<open>Count\<close> is 0 and \<^verbatim>\<open>GetRandom\<close> returns \<open>found = False\<close>. So a fetch that
  succeeds and decodes to no record clears the catalog, while a fetch that fails
  leaves the process state as it was.
\<close>

theorem empty_fetch_clears_catalog:
  assumes "len gs = 0"
  shows "(gs = NilSlice \<or> gs = Slice [])
         \<and> games (SetGames s gs) = gs
         \<and> Count (SetGames s gs) = 0
         \<and> GetRandom (SetGames s gs) raw = Inr (Game_zero, False)
         \<and> fst (fetchGames (Decoded gs) w) = None
         \<and> games (store (snd (fetchGames (Decoded gs) w))) = gs
         \<and> Count (store (snd (fetchGames (Decoded gs) w))) = 0
         \<and> GetRandom (store (snd (fetchGames (Decoded gs) w))) raw = Inr (Game_zero, False)
         \<and> fetchGames (GetFailed e) w = (Some e, w)
         \<and> fetchGames (DecodeFailed e) w = (Some e, w)"
proof -
  from assms have "gs = NilSlice \<or> gs = Slice []"
    by (cases gs) (simp_all add: len_def)
  with assms show ?thesis
    by (simp add: SetGames_def Count_def GetRandom_def fetchGames_def)
qed

theorem empty_fetch_clears_catalog_witness:
  "len (NilSlice :: Game slice) = 0 \<and> len (Slice [] :: Game slice) = 0
   \<and> Count (store (world_init\<lparr>store := demo_store\<rparr>)) = 2
   \<and> Count (store (snd (fetchGames (Decoded NilSlice) (world_init\<lparr>store := demo_store\<rparr>)))) = 0
   \<and> Count (store (snd (fetchGames (Decoded (Slice [])) (world_init\<lparr>store := demo_store\<rparr>)))) = 0
   \<and> GetRandom (store (snd (fetchGames (Decoded (Slice [])) (world_init\<lparr>store := demo_store\<rparr>)))) 5
       = Inr (Game_zero, False)
   \<and> Count (store (snd (fetchGames (GetFailed ''timeout'') (world_init\<lparr>store := demo_store\<rparr>)))) = 2"
proof -
  have h1: "len (NilSlice :: Game slice) = 0" and h2: "len (Slice [] :: Game slice) = 0"
    by (simp_all add: len_def)
  have c: "Count demo_store = 2"
    by (simp add: Count_def demo_store_def len_def)
  show ?thesis
    using h1 h2 c
      empty_fetch_clears_catalog [OF h1, of demo_store 5 "world_init\<lparr>store := demo_store\<rparr>" "''timeout''"]
      empty_fetch_clears_catalog [OF h2, of demo_store 5 "world_init\<lparr>store := demo_store\<rparr>" "''timeout''"]
    by simp
qed

section \<open>Properties of one emission\<close>

lemma store_GetRandom_empty:
  assumes "len (games (store w)) = 0"
  shows "store_GetRandom w = Inr ((Game_zero, False), w)"
  by (simp add: store_GetRandom_def GetRandom_empty [OF assms] assms)

lemma store_GetRandom_sampled:
  assumes "GetRandom (store w) (rand_src w (rand_pos w)) = Inr (g, True)"
  shows "store_GetRandom w = Inr ((g, True), w\<lparr>rand_pos := Suc (rand_pos w)\<rparr>)"
proof -
  from GetRandom_True_nonempty [OF assms] have "len (games (store w)) \<noteq> 0" by simp
  with assms show ?thesis by (simp add: store_GetRandom_def)
qed

lemma sendGame_empty:
  assumes "len (games (store w)) = 0"
  shows "sendGame enc (w, rw)
           = Inr (w, rw\<lparr>buffered := [], flushed := flushed rw @ buffered rw @ [error_event]\<rparr>)"
  by (simp add: sendGame_def store_GetRandom_empty [OF assms] Flush_def Fprintf_def)

lemma sendGame_sampled:
  assumes "GetRandom (store w) (rand_src w (rand_pos w)) = Inr (g, True)"
  shows "sendGame enc (w, rw)
           = Inr (w\<lparr>rand_pos := Suc (rand_pos w)\<rparr>,
                  rw\<lparr>buffered := [],
                     flushed := flushed rw @ buffered rw @ [data_message (json_Marshal enc g)]\<rparr>)"
  by (simp add: sendGame_def store_GetRandom_sampled [OF assms] Flush_def Fprintf_def)


text \<open>
  Every call of \<^verbatim>\<open>sendGame\<close> returns and delivers exactly one more chunk, which is a
  message drawn from the catalog of that moment.
\<close>

lemma sendGame_message:
  "\<exists>w' m. sendGame enc (w, rw)
             = Inr (w', rw\<lparr>buffered := [], flushed := flushed rw @ buffered rw @ [m]\<rparr>)
          \<and> store w' = store w
          \<and> message_from enc [games (store w)] m"
proof (cases "len (games (store w)) = 0")
  case True
  have "message_from enc [games (store w)] error_event"
    using True by (simp add: message_from_def)
  with sendGame_empty [OF True, of enc rw] show ?thesis by blast
next
  case False
  with len_nonneg [of "games (store w)"] have "1 \<le> len (games (store w))" by simp
  from GetRandom_found [OF this]
  obtain g where g: "GetRandom (store w) (rand_src w (rand_pos w)) = Inr (g, True)"
    "g \<in> set (elems (games (store w)))" by blast
  have "message_from enc [games (store w)] (data_message (json_Marshal enc g))"
    using g(2) by (auto simp: message_from_def)
  moreover have "store (w\<lparr>rand_pos := Suc (rand_pos w)\<rparr>) = store w" by simp
  ultimately show ?thesis
    using sendGame_sampled [OF g(1), of enc rw] by blast
qed

lemma json_Marshal_layout:
  \<open>json_Marshal enc g =
     ''{"id":'' @ itoa (ID g)
     @ '',"title":'' @ enc (Title g)
     @ '',"thumbnail":'' @ enc (Thumbnail g)
     @ '',"short_description":'' @ enc (ShortDescription g)
     @ '',"game_url":'' @ enc (GameURL g)
     @ '',"genre":'' @ enc (Genre g)
     @ '',"platform":'' @ enc (Platform g)
     @ '',"publisher":'' @ enc (Publisher g)
     @ '',"developer":'' @ enc (Developer g)
     @ '',"release_date":'' @ enc (ReleaseDate g) @ ''}''\<close>
  by (simp add: json_Marshal_def render_object_def Game_fields_def render_member_def)

section \<open>Properties of the stream session\<close>


text \<open>
  The handler passes the capability check with every writer and goes on to its first
  emission.
\<close>

lemma stream_enter_streams:
  "\<exists>w' m. stream_enter enc w rw
           = Inr (w', \<lparr>phase = Streaming,
                       writer = (stream_headers rw)\<lparr>buffered := [],
                          flushed := flushed rw @ buffered rw @ [m]\<rparr>,
                       ticker = Running (3 * Second)\<rparr>)
         \<and> store w' = store w
         \<and> message_from enc [games (store w)] m"
proof -
  have b: "buffered (stream_headers rw) = buffered rw"
    and fl: "flushed (stream_headers rw) = flushed rw"
    by (simp_all add: stream_headers_def Header_Set_def)
  obtain w' m where m: "sendGame enc (w, stream_headers rw)
      = Inr (w', (stream_headers rw)\<lparr>buffered := [],
           flushed := flushed (stream_headers rw) @ buffered (stream_headers rw) @ [m]\<rparr>)"
    "store w' = store w" "message_from enc [games (store w)] m"
    using sendGame_message [of enc w "stream_headers rw"] by blast
  from m(1) b fl have "stream_enter enc w rw
      = Inr (w', \<lparr>phase = Streaming,
                  writer = (stream_headers rw)\<lparr>buffered := [],
                     flushed := flushed rw @ buffered rw @ [m]\<rparr>,
                  ticker = Running (3 * Second)\<rparr>)"
    by (simp add: stream_enter_def assert_Flusher_def Let_def)
  with m(2) m(3) show ?thesis by blast
qed

lemma ticks_Cons:
  "ticks (ev # evs) = (if ev = Select TickC then Suc (ticks evs) else ticks evs)"
  by (simp add: ticks_def)



section \<open>Properties of the ticker's channel\<close>









lemma sys_run_returned:
  assumes "phase (snd ws) \<noteq> Streaming"
  shows "sys_run enc (map Select cs) ws = Inr ws"
  using assms by (induction cs) simp_all

lemma stream_loop_sys_run:
  "stream_loop enc cs ws = sys_run enc (map Select cs) ws"
proof (induction cs arbitrary: ws)
  case Nil
  show ?case by simp
next
  case (Cons c cs)
  show ?case
  proof (cases "phase (snd ws) = Streaming")
    case True
    with Cons.IH show ?thesis
      by (simp split: sum.splits)
  next
    case False
    from sys_run_returned [OF False, of enc "c # cs"] False show ?thesis
      by simp
  qed
qed

lemma ticks_map_Select:
  assumes "CtxDone \<notin> set cs"
  shows "ticks (map Select cs) = length cs"
  using assms
proof (induction cs)
  case Nil
  show ?case by (simp add: ticks_def)
next
  case (Cons c cs)
  then have "c = TickC" by (cases c) simp_all
  with Cons show ?case by (simp add: ticks_Cons)
qed

lemma stream_loop_empty_catalog:
  assumes "len (games (store w)) = 0" and "phase s = Streaming"
    and "buffered (writer s) = []" and "CtxDone \<notin> set cs"
  shows "\<exists>s'. stream_loop enc cs (w, s) = Inr (w, s')
           \<and> phase s' = Streaming \<and> ticker s' = ticker s
           \<and> buffered (writer s') = []
           \<and> flushed (writer s') = flushed (writer s) @ replicate (length cs) error_event"
  using assms(2-)
proof (induction cs arbitrary: s)
  case Nil
  then show ?case by simp
next
  case (Cons c cs)
  then have c: "c = TickC" and rest: "CtxDone \<notin> set cs"
    by (cases c; simp)+
  let ?s1 = "s\<lparr>writer := (writer s)\<lparr>buffered := [],
      flushed := flushed (writer s) @ buffered (writer s) @ [error_event]\<rparr>\<rparr>"
  have sel: "stream_select enc c (w, s) = Inr (w, ?s1)"
    using c by (simp add: sendGame_empty [OF assms(1)])
  have p1: "phase ?s1 = Streaming" using Cons.prems(1) by simp
  have b1: "buffered (writer ?s1) = []" by simp
  from Cons.IH [OF p1 b1 rest]
  obtain s' where s': "stream_loop enc cs (w, ?s1) = Inr (w, s')"
    "phase s' = Streaming" "ticker s' = ticker ?s1" "buffered (writer s') = []"
    "flushed (writer s') = flushed (writer ?s1) @ replicate (length cs) error_event"
    by blast
  have "stream_loop enc (c # cs) (w, s) = Inr (w, s')"
    using sel s'(1) Cons.prems(1) by simp
  moreover have "flushed (writer s')
      = flushed (writer s) @ replicate (length (c # cs)) error_event"
    using s'(5) Cons.prems(2) by simp
  ultimately show ?case
    using s'(2) s'(3) s'(4) by simp
qed




lemma stream_enter_empty_catalog:
  assumes "len (games (store w)) = 0" and "flusher rw"
  shows "stream_enter enc w rw
           = Inr (w, \<lparr>phase = Streaming,
                      writer = (stream_headers rw)\<lparr>buffered := [],
                         flushed := flushed rw @ buffered rw @ [error_event]\<rparr>,
                      ticker = Running (3 * Second)\<rparr>)"
proof -
  have b: "buffered (stream_headers rw) = buffered rw"
    and fl: "flushed (stream_headers rw) = flushed rw"
    by (simp_all add: stream_headers_def Header_Set_def)
  show ?thesis
    using b fl
    by (simp add: stream_enter_def assert_Flusher_def Let_def sendGame_empty [OF assms(1)])
qed

text \<open>
  Claim C6. While the catalog is empty, an emission delivers the literal of line 138,
  \<^verbatim>\<open>event: error\<close>, a line feed, \<^verbatim>\<open>data: {"message":"No games available"}\<close> and two
  line feeds, and nothing else; the process state is untouched. The session stays in
  its loop: a pass of the \<^verbatim>\<open>select\<close> on a firing leaves the phase \<open>Streaming\<close>, and
  over any number of firings against an empty catalog the handler delivers one
  error event per firing and is still in the loop. A session opened with a fresh
  writer against an empty catalog has the error event as its first and only delivered
  message on entry.
\<close>

theorem empty_catalog_emits_error_event:
  assumes "len (games (store w)) = 0"
    and "flusher rw" and "buffered rw = []" and "flushed rw = []"
    and "phase s = Streaming" and "buffered (writer s) = []"
    and "CtxDone \<notin> set cs"
  shows \<open>error_event = ''event: error'' @ [CHR 0x0A]
            @ ''data: {"message":"No games available"}'' @ [CHR 0x0A, CHR 0x0A]
         \<and> sendGame enc (w, writer s)
             = Inr (w, (writer s)\<lparr>buffered := [], flushed := flushed (writer s) @ [error_event]\<rparr>)
         \<and> stream_select enc TickC (w, s)
             = Inr (w, s\<lparr>writer := (writer s)\<lparr>buffered := [],
                    flushed := flushed (writer s) @ [error_event]\<rparr>\<rparr>)
         \<and> stream_loop enc (TickC # cs) (w, s)
             = stream_loop enc cs (w, s\<lparr>writer := (writer s)\<lparr>buffered := [],
                    flushed := flushed (writer s) @ [error_event]\<rparr>\<rparr>)
         \<and> (\<exists>s1. stream_enter enc w rw = Inr (w, s1)
                \<and> phase s1 = Streaming
                \<and> flushed (writer s1) = [error_event])
         \<and> (\<exists>s2. streamHandler enc cs w rw = Inr (w, s2)
                \<and> phase s2 = Streaming
                \<and> flushed (writer s2) = replicate (Suc (length cs)) error_event)\<close>
proof -
  have lit: \<open>error_event = ''event: error'' @ [CHR 0x0A]
      @ ''data: {"message":"No games available"}'' @ [CHR 0x0A, CHR 0x0A]\<close>
    by (simp add: error_event_def)
  have send: "sendGame enc (w, writer s)
      = Inr (w, (writer s)\<lparr>buffered := [], flushed := flushed (writer s) @ [error_event]\<rparr>)"
    using sendGame_empty [OF assms(1), of enc "writer s"] assms(6) by simp
  have sel: "stream_select enc TickC (w, s)
      = Inr (w, s\<lparr>writer := (writer s)\<lparr>buffered := [],
             flushed := flushed (writer s) @ [error_event]\<rparr>\<rparr>)"
    using send by simp
  have loop: "stream_loop enc (TickC # cs) (w, s)
      = stream_loop enc cs (w, s\<lparr>writer := (writer s)\<lparr>buffered := [],
             flushed := flushed (writer s) @ [error_event]\<rparr>\<rparr>)"
    using sel assms(5) by simp
  let ?s1 = "\<lparr>phase = Streaming,
      writer = (stream_headers rw)\<lparr>buffered := [],
         flushed := flushed rw @ buffered rw @ [error_event]\<rparr>,
      ticker = Running (3 * Second)\<rparr>"
  have enter: "stream_enter enc w rw = Inr (w, ?s1)"
    by (rule stream_enter_empty_catalog [OF assms(1) assms(2)])
  have p1: "phase ?s1 = Streaming" and b1: "buffered (writer ?s1) = []"
    and f1: "flushed (writer ?s1) = [error_event]"
    using assms(3) assms(4) by simp_all
  from stream_loop_empty_catalog [OF assms(1) p1 b1 assms(7), of enc]
  obtain s2 where s2: "stream_loop enc cs (w, ?s1) = Inr (w, s2)" "phase s2 = Streaming"
    "flushed (writer s2) = flushed (writer ?s1) @ replicate (length cs) error_event"
    by blast
  have h: "streamHandler enc cs w rw = Inr (w, s2)"
    using enter s2(1) by (simp add: streamHandler_def)
  have f2: "flushed (writer s2) = replicate (Suc (length cs)) error_event"
    using s2(3) f1 by simp
  from enter p1 f1 have e1: "\<exists>s1. stream_enter enc w rw = Inr (w, s1)
      \<and> phase s1 = Streaming \<and> flushed (writer s1) = [error_event]"
    by blast
  from h s2(2) f2 have e2: "\<exists>s2. streamHandler enc cs w rw = Inr (w, s2)
      \<and> phase s2 = Streaming
      \<and> flushed (writer s2) = replicate (Suc (length cs)) error_event"
    by blast
  from lit send sel loop e1 e2 show ?thesis
    by blast
qed

theorem empty_catalog_emits_error_event_witness:
  \<open>len (games (store world_init)) = 0
   \<and> flusher rw_init \<and> buffered rw_init = [] \<and> flushed rw_init = []
   \<and> phase \<lparr>phase = Streaming, writer = rw_init, ticker = Running (3 * Second)\<rparr> = Streaming
   \<and> CtxDone \<notin> set [TickC, TickC]
   \<and> (\<exists>s1. stream_enter quote_plain world_init rw_init = Inr (world_init, s1)
          \<and> phase s1 = Streaming
          \<and> flushed (writer s1)
              = [''event: error'' @ [CHR 0x0A]
                  @ ''data: {"message":"No games available"}'' @ [CHR 0x0A, CHR 0x0A]])
   \<and> (\<exists>s2. streamHandler quote_plain [TickC, TickC] world_init rw_init = Inr (world_init, s2)
          \<and> phase s2 = Streaming
          \<and> flushed (writer s2) = [error_event, error_event, error_event])\<close>
proof -
  let ?s = "\<lparr>phase = Streaming, writer = rw_init, ticker = Running (3 * Second)\<rparr>"
  have h1: "len (games (store world_init)) = 0"
    by (simp add: world_init_def store_init_def len_def)
  have h2: "flusher rw_init" and h3: "buffered rw_init = []" and h4: "flushed rw_init = []"
    by (simp_all add: rw_init_def)
  have h5: "phase ?s = Streaming" and h6: "buffered (writer ?s) = []"
    by (simp_all add: rw_init_def)
  have h7: "CtxDone \<notin> set [TickC, TickC]"
    by simp
  have r: "replicate (Suc (length [TickC, TickC])) error_event
      = [error_event, error_event, error_event]"
    by simp
  from empty_catalog_emits_error_event [OF h1 h2 h3 h4 h5 h6 h7, of quote_plain] r
  show ?thesis
    using h1 h2 h3 h4 h7 by auto
qed

text \<open>
  The capability check of lines 129-133 never fails: with every writer the handler
  goes on to its first emission and into the loop, and makes no reply of its own.
\<close>

lemma stream_enter_never_replies:
  "\<exists>w' s. stream_enter enc w rw = Inr (w', s)
         \<and> phase s = Streaming
         \<and> reply (writer s) = reply rw
         \<and> flushed (writer s) @ buffered (writer s) \<noteq> flushed rw @ buffered rw"
proof -
  obtain w' m where e: "stream_enter enc w rw
      = Inr (w', \<lparr>phase = Streaming,
                  writer = (stream_headers rw)\<lparr>buffered := [],
                     flushed := flushed rw @ buffered rw @ [m]\<rparr>,
                  ticker = Running (3 * Second)\<rparr>)"
    using stream_enter_streams [of enc w rw] by blast
  have "reply (stream_headers rw) = reply rw"
    by (simp add: stream_headers_def Header_Set_def)
  with e show ?thesis by simp
qed


text \<open>
  Claim C8. When \<^verbatim>\<open>GetRandom\<close> finds an item, \<^verbatim>\<open>sendGame\<close> delivers one chunk:
  \<^verbatim>\<open>data: \<close>, the marshalled item and two line feeds. The marshalled item is one JSON
  object of exactly ten members in this order: \<^verbatim>\<open>id\<close> with the identifier in decimal
  notation, then \<^verbatim>\<open>title\<close>, \<^verbatim>\<open>thumbnail\<close>, \<^verbatim>\<open>short_description\<close>, \<^verbatim>\<open>game_url\<close>,
  \<^verbatim>\<open>genre\<close>, \<^verbatim>\<open>platform\<close>, \<^verbatim>\<open>publisher\<close>, \<^verbatim>\<open>developer\<close> and \<^verbatim>\<open>release_date\<close>, each
  with the encoder's string for the field of the sampled item. The item is an element
  of the installed catalog.
\<close>

theorem item_message_framing:
  assumes "GetRandom (store w) (rand_src w (rand_pos w)) = Inr (g, True)"
  shows \<open>sendGame enc (w, rw)
           = Inr (w\<lparr>rand_pos := Suc (rand_pos w)\<rparr>,
                  rw\<lparr>buffered := [],
                     flushed := flushed rw @ buffered rw
                       @ [''data: '' @ json_Marshal enc g @ [CHR 0x0A, CHR 0x0A]]\<rparr>)
         \<and> json_Marshal enc g =
             ''{"id":'' @ itoa (ID g)
             @ '',"title":'' @ enc (Title g)
             @ '',"thumbnail":'' @ enc (Thumbnail g)
             @ '',"short_description":'' @ enc (ShortDescription g)
             @ '',"game_url":'' @ enc (GameURL g)
             @ '',"genre":'' @ enc (Genre g)
             @ '',"platform":'' @ enc (Platform g)
             @ '',"publisher":'' @ enc (Publisher g)
             @ '',"developer":'' @ enc (Developer g)
             @ '',"release_date":'' @ enc (ReleaseDate g) @ ''}''
         \<and> map fst (Game_fields g)
             = [''id'', ''title'', ''thumbnail'', ''short_description'', ''game_url'',
                ''genre'', ''platform'', ''publisher'', ''developer'', ''release_date'']
         \<and> g \<in> set (elems (games (store w)))\<close>
proof -
  have a: "sendGame enc (w, rw)
      = Inr (w\<lparr>rand_pos := Suc (rand_pos w)\<rparr>,
             rw\<lparr>buffered := [],
                flushed := flushed rw @ buffered rw
                  @ [''data: '' @ json_Marshal enc g @ [CHR 0x0A, CHR 0x0A]]\<rparr>)"
    using sendGame_sampled [OF assms, of enc rw] by (simp add: data_message_def)
  have c: "map fst (Game_fields g)
      = [''id'', ''title'', ''thumbnail'', ''short_description'', ''game_url'',
         ''genre'', ''platform'', ''publisher'', ''developer'', ''release_date'']"
    by (simp add: Game_fields_def)
  have d: "g \<in> set (elems (games (store w)))"
    using GetRandom_True_nonempty [OF assms] by simp
  from a json_Marshal_layout [of enc g] c d show ?thesis
    by blast
qed

theorem item_message_framing_witness:
  \<open>GetRandom (store (world_init\<lparr>store := demo_store\<rparr>))
       (rand_src (world_init\<lparr>store := demo_store\<rparr>) (rand_pos (world_init\<lparr>store := demo_store\<rparr>)))
     = Inr (game_b, True)
   \<and> sendGame quote_plain (world_init\<lparr>store := demo_store\<rparr>, rw_init)
     = Inr (world_init\<lparr>store := demo_store, rand_pos := 1\<rparr>,
            rw_init\<lparr>flushed :=
              [''data: {"id":521,"title":"Diablo Immortal","thumbnail":"t521.jpg",''
               @ ''"short_description":"An action RPG","game_url":"https://example.org/521",''
               @ ''"genre":"MMOARPG","platform":"PC (Windows)",''
               @ ''"publisher":"Blizzard Entertainment","developer":"Blizzard Entertainment",''
               @ ''"release_date":"2022-06-02"}'' @ [CHR 0x0A, CHR 0x0A]]\<rparr>)\<close>
proof -
  let ?w = "world_init\<lparr>store := demo_store\<rparr>"
  have h: "GetRandom (store ?w) (rand_src ?w (rand_pos ?w)) = Inr (game_b, True)"
    by (simp add: world_init_def demo_store_def GetRandom_def Intn_def index_def len_def)
  have i: "itoa (ID game_b) = ''521''"
    by (simp add: game_b_def itoa_def digits.simps)
  show ?thesis
    using h item_message_framing [OF h, of quote_plain rw_init] i
    by (simp add: world_init_def rw_init_def game_b_def quote_plain_def)
qed

section \<open>Properties of concurrent calls\<close>

lemma filter_update_count:
  assumes "t < length xs"
  shows "length (filter P (xs[t := y])) + (if P (xs ! t) then 1 else 0)
           = length (filter P xs) + (if P y then 1 else 0)"
  using assms
proof (induction xs arbitrary: t)
  case Nil
  then show ?case by simp
next
  case (Cons x xs)
  show ?case
  proof (cases t)
    case 0
    then show ?thesis by simp
  next
    case (Suc k)
    with Cons.prems have "k < length xs" by simp
    from Cons.IH [OF this] Suc show ?thesis by simp
  qed
qed

lemma no_holder:
  assumes "length (filter P xs) = 0" and "x \<in> set xs"
  shows "\<not> P x"
  using assms by (induction xs) (auto split: if_splits)

lemma thread_ok_mono:
  assumes "thread_ok sh th" and "\<not> holds_read th"
    and "set (installed sh) \<subseteq> set (installed sh')"
  shows "thread_ok sh' th"
proof (cases th)
  case (Finished c r)
  with assms show ?thesis
    by (cases c; cases r) auto
qed (use assms in simp_all)

lemma thread_ok_same_mem:
  assumes "thread_ok sh th" and "mem sh' = mem sh" and "installed sh' = installed sh"
  shows "thread_ok sh' th"
  using assms by (cases th) simp_all

lemma all_update:
  assumes "\<forall>x \<in> set xs. Q x" and "Q y"
  shows "\<forall>x \<in> set (xs[t := y]). Q x"
  using assms set_update_subset_insert [of xs t y] by fast

lemma SetGames_literal: "SetGames s gs = \<lparr>games = gs\<rparr>"
  by (cases s) (simp add: SetGames_def)

lemma step_Inv:
  assumes "Inv cats cfg"
  shows "Inv cats (schedule_step t cfg)"
proof (cases "t < length (threads cfg)")
  case False
  with assms show ?thesis by (simp add: schedule_step_def)
next
  case t: True
  let ?ths = "threads cfg" and ?sh = "shared cfg"
  from assms have
    ic: "set (installed ?sh) \<subseteq> set cats" and
    so: "\<forall>th \<in> set ?ths. source_ok cats th" and
    rc: "rcount ?sh = length (filter holds_read ?ths)" and
    wc: "(if wlocked ?sh then 1 else 0) = length (filter holds_write ?ths)" and
    wr: "wlocked ?sh \<longrightarrow> rcount ?sh = 0" and
    mi: "mem ?sh \<in> set (installed ?sh)" and
    ok: "\<forall>th \<in> set ?ths. thread_ok ?sh th"
    unfolding Inv_def by blast+
  from t have mem_t: "?ths ! t \<in> set ?ths" by simp
  with ok have ok_t: "thread_ok ?sh (?ths ! t)" by blast
  from mem_t so have so_t: "source_ok cats (?ths ! t)" by blast
  show ?thesis
  proof (cases "thread_step (?ths ! t) ?sh")
    case None
    with assms t show ?thesis by (simp add: schedule_step_def)
  next
    case (Some r)
    obtain th sh where r: "r = (th, sh)" by (cases r)
    with Some have ts: "thread_step (?ths ! t) ?sh = Some (th, sh)" by simp
    then have st: "schedule_step t cfg = \<lparr>threads = ?ths[t := th], shared = sh\<rparr>"
      using t by (simp add: schedule_step_def)
    have cr: "length (filter holds_read (?ths[t := th])) + (if holds_read (?ths ! t) then 1 else 0)
        = length (filter holds_read ?ths) + (if holds_read th then 1 else 0)"
      by (rule filter_update_count [OF t])
    have cw: "length (filter holds_write (?ths[t := th])) + (if holds_write (?ths ! t) then 1 else 0)
        = length (filter holds_write ?ths) + (if holds_write th then 1 else 0)"
      by (rule filter_update_count [OF t])
    have sub: "set (?ths[t := th]) \<subseteq> insert th (set ?ths)"
      by (rule set_update_subset_insert)
    have src: "\<forall>x \<in> set (?ths[t := th]). source_ok cats x" if "source_ok cats th"
      by (rule all_update [OF so that])
    have same: "\<forall>x \<in> set ?ths. thread_ok sh x"
      if "mem sh = mem ?sh" and "installed sh = installed ?sh"
      using ok thread_ok_same_mem [OF _ that] by blast
    show ?thesis
    proof (cases "?ths ! t")
      case (Start c)
      show ?thesis
      proof (cases c)
        case (CallSetGames gs)
        with Start ts have free: "\<not> wlocked ?sh" "rcount ?sh = 0"
          and th: "th = SG_locked gs" and sh: "sh = ?sh\<lparr>wlocked := True\<rparr>"
          by (auto split: if_splits)
        have "\<forall>x \<in> set (?ths[t := th]). thread_ok sh x"
          by (rule all_update) (use same sh th in simp_all)
        then show ?thesis
          using cr cw rc wc wr mi ic src so_t Start CallSetGames th sh free
          by (simp add: st Inv_def)
      next
        case (CallGetRandom raw)
        with Start ts have free: "\<not> wlocked ?sh"
          and th: "th = GR_rlocked raw" and sh: "sh = ?sh\<lparr>rcount := Suc (rcount ?sh)\<rparr>"
          by (auto split: if_splits)
        have "\<forall>x \<in> set (?ths[t := th]). thread_ok sh x"
          by (rule all_update) (use same sh th in simp_all)
        then show ?thesis
          using cr cw rc wc wr mi ic src so_t Start th sh free by (simp add: st Inv_def)
      next
        case CallCount
        with Start ts have free: "\<not> wlocked ?sh"
          and th: "th = CT_rlocked" and sh: "sh = ?sh\<lparr>rcount := Suc (rcount ?sh)\<rparr>"
          by (auto split: if_splits)
        have "\<forall>x \<in> set (?ths[t := th]). thread_ok sh x"
          by (rule all_update) (use same sh th in simp_all)
        then show ?thesis
          using cr cw rc wc wr mi ic src so_t Start th sh free by (simp add: st Inv_def)
      qed
    next
      case (SG_locked gs)
      with ts have th: "th = SG_assigned gs"
        and sh: "sh = ?sh\<lparr>mem := SetGames (mem ?sh) gs,
                      installed := installed ?sh @ [SetGames (mem ?sh) gs]\<rparr>"
        by auto
      have w: "wlocked ?sh"
      proof (rule ccontr)
        assume "\<not> wlocked ?sh"
        with wc have "length (filter holds_write ?ths) = 0" by simp
        from no_holder [OF this mem_t] SG_locked show False by simp
      qed
      with wr rc have nr: "length (filter holds_read ?ths) = 0" by simp
      have "\<forall>x \<in> set ?ths. thread_ok sh x"
      proof
        fix x assume x: "x \<in> set ?ths"
        from no_holder [OF nr x] have nh: "\<not> holds_read x" .
        from ok x have "thread_ok ?sh x" by blast
        then show "thread_ok sh x"
          using nh by (rule thread_ok_mono) (auto simp: sh)
      qed
      then have "\<forall>x \<in> set (?ths[t := th]). thread_ok sh x"
        by (rule all_update) (simp add: th)
      then show ?thesis
        using cr cw rc wc wr mi ic src so_t SG_locked th sh w
        by (simp add: st Inv_def SetGames_literal)
    next
      case (SG_assigned gs)
      with ts have th: "th = Finished (CallSetGames gs) RetUnit"
        and sh: "sh = ?sh\<lparr>wlocked := False\<rparr>"
        by auto
      have "\<forall>x \<in> set (?ths[t := th]). thread_ok sh x"
        by (rule all_update) (use same sh th in simp_all)
      then show ?thesis
        using cr cw rc wc wr mi ic src so_t SG_assigned th sh by (simp add: st Inv_def split: if_splits)
    next
      case (GR_rlocked raw)
      with ts have sh: "sh = ?sh"
        and th: "th = (if len (games (mem ?sh)) = 0 then GR_result raw Game_zero False
                       else GR_nonempty raw)"
        by auto
      have "thread_ok sh th"
        using sh th by (simp add: GetRandom_empty)
      with same sh have "\<forall>x \<in> set (?ths[t := th]). thread_ok sh x"
        by (intro all_update) simp_all
      then show ?thesis
        using cr cw rc wc wr mi ic src so_t GR_rlocked th sh by (simp add: st Inv_def split: if_splits)
    next
      case (GR_nonempty raw)
      with ok_t have ne: "len (games (mem ?sh)) \<noteq> 0" by simp
      with len_nonneg [of "games (mem ?sh)"] have pos: "0 < len (games (mem ?sh))" by simp
      obtain i where i: "Intn raw (len (games (mem ?sh))) = Inr i"
        using Intn_in_range [OF pos] by blast
      with GR_nonempty ts have sh: "sh = ?sh" and th: "th = GR_drawn raw i"
        by auto
      have "thread_ok sh th"
        using sh th ne i by simp
      with same sh have "\<forall>x \<in> set (?ths[t := th]). thread_ok sh x"
        by (intro all_update) simp_all
      then show ?thesis
        using cr cw rc wc wr mi ic src so_t GR_nonempty th sh by (simp add: st Inv_def)
    next
      case (GR_drawn raw i)
      with ok_t have ne: "len (games (mem ?sh)) \<noteq> 0"
        and i: "Intn raw (len (games (mem ?sh))) = Inr i" by simp_all
      from i ne have rng: "0 \<le> i" "i < len (games (mem ?sh))"
        using len_nonneg [of "games (mem ?sh)"] by (auto simp: Intn_def split: if_splits)
      obtain g where g: "index (games (mem ?sh)) i = Inr g"
        using index_in_range [OF rng] by blast
      with GR_drawn ts have sh: "sh = ?sh" and th: "th = GR_result raw g True"
        by auto
      have "thread_ok sh th"
        using sh th ne i g by (simp add: GetRandom_def)
      with same sh have "\<forall>x \<in> set (?ths[t := th]). thread_ok sh x"
        by (intro all_update) simp_all
      then show ?thesis
        using cr cw rc wc wr mi ic src so_t GR_drawn th sh by (simp add: st Inv_def)
    next
      case (GR_result raw g b)
      with ts have th: "th = Finished (CallGetRandom raw) (RetGame g b)"
        and sh: "sh = ?sh\<lparr>rcount := rcount ?sh - 1\<rparr>"
        by auto
      from GR_result ok_t mi have "thread_ok sh th"
        using sh th by auto
      with same sh have "\<forall>x \<in> set (?ths[t := th]). thread_ok sh x"
        by (intro all_update) simp_all
      then show ?thesis
        using cr cw rc wc wr mi ic src so_t GR_result th sh by (simp add: st Inv_def)
    next
      case (GR_panic p)
      with ok_t show ?thesis by simp
    next
      case CT_rlocked
      with ts have sh: "sh = ?sh" and th: "th = CT_result (len (games (mem ?sh)))"
        by auto
      have "thread_ok sh th"
        using sh th by (simp add: Count_def)
      with same sh have "\<forall>x \<in> set (?ths[t := th]). thread_ok sh x"
        by (intro all_update) simp_all
      then show ?thesis
        using cr cw rc wc wr mi ic src so_t CT_rlocked th sh by (simp add: st Inv_def)
    next
      case (CT_result n)
      with ts have th: "th = Finished CallCount (RetCount n)"
        and sh: "sh = ?sh\<lparr>rcount := rcount ?sh - 1\<rparr>"
        by auto
      from CT_result ok_t mi have "thread_ok sh th"
        using sh th by auto
      with same sh have "\<forall>x \<in> set (?ths[t := th]). thread_ok sh x"
        by (intro all_update) simp_all
      then show ?thesis
        using cr cw rc wc wr mi ic src so_t CT_result th sh by (simp add: st Inv_def)
    next
      case (Finished c r)
      with ts show ?thesis by simp
    next
      case (Panicked p)
      with ts show ?thesis by simp
    qed
  qed
qed

lemma run_Inv:
  assumes "Inv cats cfg"
  shows "Inv cats (run_schedule sched cfg)"
  using assms by (induction sched arbitrary: cfg) (simp_all add: step_Inv)

lemma Start_source_ok:
  assumes "c \<in> set calls"
  shows "source_ok (catalogs s calls) (Start c)"
proof (cases c)
  case (CallSetGames gs)
  with assms have "SetGames s gs \<in> set (concat (map (installs s) calls))"
    by force
  with CallSetGames show ?thesis
    by (simp add: catalogs_def SetGames_literal)
qed simp_all

lemma init_Inv: "Inv (catalogs s calls) (init_config s calls)"
proof -
  have "filter holds_read (map Start calls) = []" and "filter holds_write (map Start calls) = []"
    by (induction calls) simp_all
  moreover have "\<forall>th \<in> set (map Start calls). source_ok (catalogs s calls) th"
    using Start_source_ok by auto
  moreover have "s \<in> set (catalogs s calls)"
    by (simp add: catalogs_def)
  ultimately show ?thesis
    by (auto simp: Inv_def init_config_def)
qed

lemma Inv_safe: "Inv cats cfg \<Longrightarrow> threads_safe cfg"
  unfolding Inv_def threads_safe_def
  by (auto split: thread.splits)

lemma Inv_installed: "Inv cats cfg \<Longrightarrow> set (installed (shared cfg)) \<subseteq> set cats"
  unfolding Inv_def by blast


text \<open>
  The steps do represent the race: with an index computed from a longer slice, the
  index expression panics. The lock is what makes such a configuration unreachable.
\<close>

lemma stale_index_panics:
  "thread_step (GR_drawn 1 1)
       \<lparr>mem = \<lparr>games = Slice [game_a]\<rparr>, wlocked = False, rcount = 1, installed = []\<rparr>
     = Some (GR_panic IndexOutOfRange,
         \<lparr>mem = \<lparr>games = Slice [game_a]\<rparr>, wlocked = False, rcount = 1, installed = []\<rparr>)"
  by (simp add: index_def len_def)

text \<open>
  Claim C9. Start from any store and any number of threads, each about to call
  \<^verbatim>\<open>SetGames\<close>, \<^verbatim>\<open>GetRandom\<close> or \<^verbatim>\<open>Count\<close>, and interleave their statements in any
  order. Then no thread has panicked or is about to: no index is ever out of range.
  Every call of \<^verbatim>\<open>GetRandom\<close> that has returned has returned what \<^verbatim>\<open>GetRandom\<close> returns
  when run alone on one of the stores that have been installed, so its emptiness test,
  its bound and its item all come from that one catalog; every call of \<^verbatim>\<open>Count\<close> that
  has returned has returned the length of one of them. The stores that have been
  installed are the initial one and those that hold exactly the slice given to one of
  the calls of \<^verbatim>\<open>SetGames\<close>. The statement is about the interleavings of whole loads
  and stores of \<^verbatim>\<open>s.games\<close> under the documented behaviour of the lock.
\<close>

theorem SetGames_atomic_for_readers:
  "(\<forall>th \<in> set (threads (run_schedule sched (init_config s calls))).
      (\<forall>p. th \<noteq> Panicked p \<and> th \<noteq> GR_panic p)
      \<and> (\<forall>raw r. th = Finished (CallGetRandom raw) r \<longrightarrow>
            (\<exists>c \<in> set (installed (shared (run_schedule sched (init_config s calls)))).
               \<exists>g ok. r = RetGame g ok \<and> GetRandom c raw = Inr (g, ok)))
      \<and> (\<forall>r. th = Finished CallCount r \<longrightarrow>
            (\<exists>c \<in> set (installed (shared (run_schedule sched (init_config s calls)))).
               r = RetCount (Count c))))
   \<and> (\<forall>c \<in> set (installed (shared (run_schedule sched (init_config s calls)))).
        c = s \<or> (\<exists>gs. CallSetGames gs \<in> set calls \<and> c = \<lparr>games = gs\<rparr>))"
proof -
  let ?cfg = "run_schedule sched (init_config s calls)"
  have inv: "Inv (catalogs s calls) ?cfg"
    by (rule run_Inv [OF init_Inv])
  have safe: "threads_safe ?cfg"
    by (rule Inv_safe [OF inv])
  have a: "(\<forall>p. th \<noteq> Panicked p \<and> th \<noteq> GR_panic p)
      \<and> (\<forall>raw r. th = Finished (CallGetRandom raw) r \<longrightarrow>
            (\<exists>c \<in> set (installed (shared ?cfg)).
               \<exists>g ok. r = RetGame g ok \<and> GetRandom c raw = Inr (g, ok)))
      \<and> (\<forall>r. th = Finished CallCount r \<longrightarrow>
            (\<exists>c \<in> set (installed (shared ?cfg)). r = RetCount (Count c)))"
    if th: "th \<in> set (threads ?cfg)" for th
  proof (cases th)
    case (Finished c r)
    from safe th Finished have ok: "result_ok (installed (shared ?cfg)) c r"
      by (auto simp: threads_safe_def)
    then show ?thesis
      using Finished by (cases c; cases r) auto
  next
    case (Panicked p)
    with safe th show ?thesis by (auto simp: threads_safe_def)
  next
    case (GR_panic p)
    with safe th show ?thesis by (auto simp: threads_safe_def)
  qed simp_all
  have b: "c = s \<or> (\<exists>gs. CallSetGames gs \<in> set calls \<and> c = \<lparr>games = gs\<rparr>)"
    if c: "c \<in> set (installed (shared ?cfg))" for c
  proof -
    from Inv_installed [OF inv] c have "c \<in> set (catalogs s calls)" by blast
    then consider "c = s" | "c \<in> set (concat (map (installs s) calls))"
      by (auto simp: catalogs_def)
    then show ?thesis
    proof cases
      case 1
      then show ?thesis by simp
    next
      case 2
      then obtain k where k: "k \<in> set calls" "c \<in> set (installs s k)" by auto
      show ?thesis
      proof (cases k)
        case (CallSetGames gs)
        with k have "CallSetGames gs \<in> set calls" and "c = \<lparr>games = gs\<rparr>"
          by (simp_all add: SetGames_literal)
        then show ?thesis by blast
      qed (use k in simp_all)
    qed
  qed
  from a b show ?thesis by blast
qed

theorem SetGames_atomic_for_readers_witness:
  "threads (run_schedule demo_schedule (init_config demo_store demo_calls))
     = [Finished (CallGetRandom 0) (RetGame game_a True),
        Finished (CallGetRandom 1) (RetGame game_b True),
        Finished (CallGetRandom 2) (RetGame (game_b\<lparr>ID := 13\<rparr>) True),
        Finished (CallGetRandom 3) (RetGame (game_b\<lparr>ID := 11\<rparr>) True),
        Finished (CallGetRandom 4) (RetGame (game_b\<lparr>ID := 12\<rparr>) True),
        Finished (CallSetGames (Slice three_games)) RetUnit]
   \<and> installed (shared (run_schedule demo_schedule (init_config demo_store demo_calls)))
     = [demo_store, \<lparr>games = Slice three_games\<rparr>]
   \<and> (GetRandom demo_store 2 = Inr (game_b\<lparr>ID := 13\<rparr>, True)
        \<or> GetRandom \<lparr>games = Slice three_games\<rparr> 2 = Inr (game_b\<lparr>ID := 13\<rparr>, True))"
proof -
  let ?cfg = "run_schedule demo_schedule (init_config demo_store demo_calls)"
  have t: "threads ?cfg
     = [Finished (CallGetRandom 0) (RetGame game_a True),
        Finished (CallGetRandom 1) (RetGame game_b True),
        Finished (CallGetRandom 2) (RetGame (game_b\<lparr>ID := 13\<rparr>) True),
        Finished (CallGetRandom 3) (RetGame (game_b\<lparr>ID := 11\<rparr>) True),
        Finished (CallGetRandom 4) (RetGame (game_b\<lparr>ID := 12\<rparr>) True),
        Finished (CallSetGames (Slice three_games)) RetUnit]"
    by (simp add: demo_schedule_def init_config_def demo_calls_def schedule_step_def
          demo_store_def three_games_def len_def Intn_def index_def SetGames_def)
  have i: "installed (shared ?cfg) = [demo_store, \<lparr>games = Slice three_games\<rparr>]"
    by (simp add: demo_schedule_def init_config_def demo_calls_def schedule_step_def
          demo_store_def three_games_def len_def Intn_def index_def SetGames_def)
  have m: "Finished (CallGetRandom 2) (RetGame (game_b\<lparr>ID := 13\<rparr>) True) \<in> set (threads ?cfg)"
    unfolding t by simp
  from SetGames_atomic_for_readers [of demo_schedule demo_store demo_calls] m
  have "\<exists>c \<in> set (installed (shared ?cfg)).
      \<exists>g ok. RetGame (game_b\<lparr>ID := 13\<rparr>) True = RetGame g ok \<and> GetRandom c 2 = Inr (g, ok)"
    by blast
  then have "GetRandom demo_store 2 = Inr (game_b\<lparr>ID := 13\<rparr>, True)
      \<or> GetRandom \<lparr>games = Slice three_games\<rparr> 2 = Inr (game_b\<lparr>ID := 13\<rparr>, True)"
    unfolding i by auto
  with t i show ?thesis by blast
qed

end
